theory Spec2Isabelle
  imports Main "HOL-Library.Log_Nat" "HOL-Library.Signed_Division"
begin

section \<open>Go values used by the package\<close>

subsection \<open>Run-time faults\<close>

text \<open>
  A Go function of this package either returns or panics. A panic is the left summand
  of the result: \<open>IndexOutOfRange i n\<close> is the run-time error of indexing a slice of
  length \<open>n\<close> at \<open>i\<close>, \<open>NilDereference\<close> the one of calling a method on a nil
  interface value. \<open>Unspecified\<close> is not a panic: it marks a conversion of a float64 to
  int whose operand int cannot represent (an infinity, NaN or a value outside the 64-bit
  range). Go lets the conversion succeed with a value that depends on the implementation;
  the model stops there instead of picking one.
\<close>

datatype fault = IndexOutOfRange nat nat | NilDereference | Unspecified

subsection \<open>float64\<close>

text \<open>
  A float64 is a finite binary fraction, an infinity or NaN. \<open>Finite r\<close> is the finite
  value \<open>r\<close>, with \<open>Finite 0\<close> the zero of positive sign; \<open>NegZero\<close> is the zero of
  negative sign, which IEEE 754 keeps apart because a division by it gives the infinity
  of the other sign. Every operation rounds its exact result to the nearest float64,
  ties to even (\<open>round64\<close>): 53 bits of significand, the smallest exponent -1022 (below
  it the spacing stays \<open>2 ^ -1074\<close>), overflow to an infinity from \<open>2 ^ 1024\<close> on, and a
  result that rounds to zero keeps its sign.
\<close>

datatype f64 = Finite rat | NegZero | PosInf | NegInf | NaN

definition pow2 :: "int \<Rightarrow> rat" where
  "pow2 e = (if 0 \<le> e then 2 ^ nat e else 1 / 2 ^ nat (- e))"

definition floorlog2 :: "rat \<Rightarrow> int" where
  "floorlog2 a =
     (let (p, q) = quotient_of a; e = bitlen p - bitlen q
      in if pow2 e \<le> a then e else e - 1)"

definition round_half_even :: "rat \<Rightarrow> int" where
  "round_half_even q =
     (let f = \<lfloor>q\<rfloor>; d = q - of_int f
      in if d < 1 / 2 then f
         else if 1 / 2 < d then f + 1
         else if even f then f else f + 1)"

definition round64 :: "rat \<Rightarrow> f64" where
  "round64 x =
     (if x = 0 then Finite 0
      else
        let a = \<bar>x\<bar>;
            e = max (floorlog2 a) (- 1022);
            ulp = pow2 (e - 52);
            r = of_int (round_half_even (a / ulp)) * ulp
        in if pow2 1024 \<le> r then (if 0 < x then PosInf else NegInf)
           else if r = 0 then (if 0 < x then Finite 0 else NegZero)
           else Finite (if 0 < x then r else - r))"

text \<open>\<open>float64(n)\<close> for an int \<open>n\<close>.\<close>

definition f64_of_int :: "int \<Rightarrow> f64" where
  "f64_of_int n = round64 (of_int n)"

text \<open>
  \<open>x / y\<close>, \<open>x * y\<close> and \<open>x + y\<close> on float64. The sign of a zero or infinite quotient or
  product is the product of the signs of the operands; a sum of two zeros of different
  sign, or of a number and its opposite, is the zero of positive sign.
\<close>

fun f64_div :: "f64 \<Rightarrow> f64 \<Rightarrow> f64" where
  "f64_div NaN _ = NaN"
| "f64_div _ NaN = NaN"
| "f64_div (Finite a) (Finite b) =
     (if b = 0 then (if a = 0 then NaN else if 0 < a then PosInf else NegInf)
      else if a = 0 then (if b < 0 then NegZero else Finite 0)
      else round64 (a / b))"
| "f64_div (Finite a) NegZero = (if a = 0 then NaN else if 0 < a then NegInf else PosInf)"
| "f64_div NegZero (Finite b) = (if b = 0 then NaN else if 0 < b then NegZero else Finite 0)"
| "f64_div NegZero NegZero = NaN"
| "f64_div (Finite a) PosInf = (if a < 0 then NegZero else Finite 0)"
| "f64_div (Finite a) NegInf = (if a < 0 then Finite 0 else NegZero)"
| "f64_div NegZero PosInf = NegZero"
| "f64_div NegZero NegInf = Finite 0"
| "f64_div PosInf (Finite b) = (if 0 \<le> b then PosInf else NegInf)"
| "f64_div PosInf NegZero = NegInf"
| "f64_div NegInf (Finite b) = (if 0 \<le> b then NegInf else PosInf)"
| "f64_div NegInf NegZero = PosInf"
| "f64_div _ _ = NaN"

fun f64_mul :: "f64 \<Rightarrow> f64 \<Rightarrow> f64" where
  "f64_mul NaN _ = NaN"
| "f64_mul _ NaN = NaN"
| "f64_mul (Finite a) (Finite b) =
     (if a = 0 \<or> b = 0 then (if (a < 0) \<noteq> (b < 0) then NegZero else Finite 0)
      else round64 (a * b))"
| "f64_mul (Finite a) NegZero = (if a < 0 then Finite 0 else NegZero)"
| "f64_mul NegZero (Finite b) = (if b < 0 then Finite 0 else NegZero)"
| "f64_mul NegZero NegZero = Finite 0"
| "f64_mul (Finite a) PosInf = (if a = 0 then NaN else if 0 < a then PosInf else NegInf)"
| "f64_mul (Finite a) NegInf = (if a = 0 then NaN else if 0 < a then NegInf else PosInf)"
| "f64_mul PosInf (Finite b) = (if b = 0 then NaN else if 0 < b then PosInf else NegInf)"
| "f64_mul NegInf (Finite b) = (if b = 0 then NaN else if 0 < b then NegInf else PosInf)"
| "f64_mul NegZero _ = NaN"
| "f64_mul _ NegZero = NaN"
| "f64_mul PosInf PosInf = PosInf"
| "f64_mul NegInf NegInf = PosInf"
| "f64_mul _ _ = NegInf"

fun f64_add :: "f64 \<Rightarrow> f64 \<Rightarrow> f64" where
  "f64_add NaN _ = NaN"
| "f64_add _ NaN = NaN"
| "f64_add (Finite a) (Finite b) = round64 (a + b)"
| "f64_add (Finite a) NegZero = round64 a"
| "f64_add NegZero (Finite b) = round64 b"
| "f64_add NegZero NegZero = NegZero"
| "f64_add PosInf NegInf = NaN"
| "f64_add NegInf PosInf = NaN"
| "f64_add PosInf _ = PosInf"
| "f64_add NegInf _ = NegInf"
| "f64_add _ y = y"

text \<open>
  \<open>x > y\<close> on float64: false as soon as one side is NaN; the two zeros are equal.
\<close>

fun f64_gt :: "f64 \<Rightarrow> f64 \<Rightarrow> bool" where
  "f64_gt NaN _ = False"
| "f64_gt _ NaN = False"
| "f64_gt (Finite a) (Finite b) = (b < a)"
| "f64_gt (Finite a) NegZero = (0 < a)"
| "f64_gt NegZero (Finite b) = (b < 0)"
| "f64_gt PosInf y = (y \<noteq> PosInf)"
| "f64_gt (Finite a) NegInf = True"
| "f64_gt NegZero NegInf = True"
| "f64_gt _ _ = False"

text \<open>
  \<open>int(x)\<close> for a float64 \<open>x\<close>: the fraction is discarded (truncation towards zero).
  The result is specified only when it fits the 64 bits of int.
\<close>

definition trunc :: "rat \<Rightarrow> int" where
  "trunc r = (if 0 \<le> r then \<lfloor>r\<rfloor> else \<lceil>r\<rceil>)"

fun f64_to_int :: "f64 \<Rightarrow> fault + int" where
  "f64_to_int (Finite r) =
     (let t = trunc r
      in if - (2 ^ 63) \<le> t \<and> t < 2 ^ 63 then Inr t else Inl Unspecified)"
| "f64_to_int NegZero = Inr 0"
| "f64_to_int _ = Inl Unspecified"

subsection \<open>int\<close>

text \<open>
  Go's int is taken as 64 bits wide. Sums and differences wrap around (\<open>int64\<close>);
  the quotient \<open>a / b\<close> truncates towards zero, which is \<open>sdiv\<close>.
\<close>

definition int64 :: "int \<Rightarrow> int" where
  "int64 k = signed_take_bit 63 k"

definition add64 :: "int \<Rightarrow> int \<Rightarrow> int" where
  "add64 a b = int64 (a + b)"

definition sub64 :: "int \<Rightarrow> int \<Rightarrow> int" where
  "sub64 a b = int64 (a - b)"

definition half :: "int \<Rightarrow> int" where
  "half a = a sdiv 2"

subsection \<open>image.Rectangle\<close>

record Point =
  X :: int
  Y :: int

record Rectangle =
  MinP :: Point
  MaxP :: Point

text \<open>
  \<open>image.Rect(x0, y0, x1, y1)\<close> is the rectangle of the two corners, put in order: the
  library swaps the coordinates of an axis when the first exceeds the second.
\<close>

definition Rect :: "int \<Rightarrow> int \<Rightarrow> int \<Rightarrow> int \<Rightarrow> Rectangle" where
  "Rect x0 y0 x1 y1 =
     (let (xa, xb) = (if x1 < x0 then (x1, x0) else (x0, x1));
          (ya, yb) = (if y1 < y0 then (y1, y0) else (y0, y1))
      in \<lparr>MinP = \<lparr>X = xa, Y = ya\<rparr>, MaxP = \<lparr>X = xb, Y = yb\<rparr>\<rparr>)"

definition Dx :: "Rectangle \<Rightarrow> int" where
  "Dx r = sub64 (X (MaxP r)) (X (MinP r))"

definition Dy :: "Rectangle \<Rightarrow> int" where
  "Dy r = sub64 (Y (MaxP r)) (Y (MinP r))"

section \<open>The processor and its options\<close>

text \<open>
  The struct \<open>Processor\<close>; the fields carry the prefix \<open>p_\<close> because \<open>aspect\<close> and
  \<open>padding\<close> are also functions of the package.
\<close>

record Processor =
  p_dir :: string
  p_white :: bool
  p_aspect :: f64
  p_quality :: int
  p_concurrency :: int
  p_padding :: f64
  p_force :: bool

text \<open>The zero value of the struct, which \<open>var v Processor\<close> declares.\<close>

definition zero_Processor :: Processor where
  "zero_Processor =
     \<lparr>p_dir = [], p_white = False, p_aspect = Finite 0, p_quality = 0,
      p_concurrency = 0, p_padding = Finite 0, p_force = False\<rparr>"

text \<open>
  \<open>strconv.ParseFloat(s, 64)\<close> belongs to Go's library. The functions that call it take
  it as the parameter \<open>pf\<close>: it returns the parsed float64 or one of the library's two
  errors.
\<close>

datatype num_error = ErrSyntax | ErrRange

type_synonym ParseFloat = "string \<Rightarrow> num_error + f64"

text \<open>
  An \<open>Option\<close> is a function on the processor that returns an error or nil. Here it
  returns the processor as the option left it together with that error, unless it panics.
\<close>

type_synonym Option = "Processor \<Rightarrow> fault + (Processor \<times> num_error option)"

text \<open>
  \<open>strings.Split(s, ":")\<close>: the pieces of \<open>s\<close> between the separators, one more than
  there are separators, so never an empty slice.
\<close>

fun Split :: "char \<Rightarrow> string \<Rightarrow> string list" where
  "Split c [] = [[]]"
| "Split c (x # xs) =
     (if x = c then [] # Split c xs
      else (case Split c xs of [] \<Rightarrow> [[x]] | p # ps \<Rightarrow> (x # p) # ps))"

text \<open>\<open>parts[i]\<close>: the bounds check of a slice index.\<close>

definition index :: "'a list \<Rightarrow> nat \<Rightarrow> fault + 'a" where
  "index xs i = (if i < length xs then Inr (xs ! i) else Inl (IndexOutOfRange i (length xs)))"

text \<open>
  \<open>parseAspect\<close> returns the pair of Go's \<open>(float64, error)\<close>, or panics at \<open>parts[1]\<close>.
\<close>

definition parseAspect :: "ParseFloat \<Rightarrow> string \<Rightarrow> fault + (f64 \<times> num_error option)" where
  "parseAspect pf s =
     (let parts = Split CHR '':'' s
      in case index parts 0 of
           Inl f \<Rightarrow> Inl f
         | Inr p0 \<Rightarrow>
            (case pf p0 of
               Inl err \<Rightarrow> Inr (Finite 0, Some err)
             | Inr a \<Rightarrow>
                (case index parts 1 of
                   Inl f \<Rightarrow> Inl f
                 | Inr p1 \<Rightarrow>
                    (case pf p1 of
                       Inl err \<Rightarrow> Inr (Finite 0, Some err)
                     | Inr b \<Rightarrow> Inr (f64_div a b, None)))))"

definition WithWhiteBackground :: "bool \<Rightarrow> Option" where
  "WithWhiteBackground v p = Inr (p\<lparr>p_white := v\<rparr>, None)"

definition WithForce :: "bool \<Rightarrow> Option" where
  "WithForce v p = Inr (p\<lparr>p_force := v\<rparr>, None)"

definition WithPadding :: "int \<Rightarrow> Option" where
  "WithPadding n p = Inr (p\<lparr>p_padding := f64_div (f64_of_int n) (Finite 100)\<rparr>, None)"

definition WithAspect :: "ParseFloat \<Rightarrow> string \<Rightarrow> Option" where
  "WithAspect pf ratio p =
     (case parseAspect pf ratio of
        Inl f \<Rightarrow> Inl f
      | Inr (n, err) \<Rightarrow> Inr (p\<lparr>p_aspect := n\<rparr>, err))"

definition WithQuality :: "int \<Rightarrow> Option" where
  "WithQuality n p = Inr (p\<lparr>p_quality := n\<rparr>, None)"

definition WithConcurrency :: "int \<Rightarrow> Option" where
  "WithConcurrency n p = Inr (p\<lparr>p_concurrency := n\<rparr>, None)"

text \<open>
  \<open>New\<close>: the loop over the options stops at the first one that returns an error, and
  \<open>New\<close> returns that error and no processor.
\<close>

fun apply_options :: "Option list \<Rightarrow> Processor \<Rightarrow> fault + (num_error + Processor)" where
  "apply_options [] v = Inr (Inr v)"
| "apply_options (opt # options) v =
     (case opt v of
        Inl f \<Rightarrow> Inl f
      | Inr (v', Some err) \<Rightarrow> Inr (Inl err)
      | Inr (v', None) \<Rightarrow> apply_options options v')"

definition New :: "string \<Rightarrow> Option list \<Rightarrow> fault + (num_error + Processor)" where
  "New dir options =
     apply_options options (zero_Processor\<lparr>p_concurrency := 1, p_quality := 90, p_dir := dir\<rparr>)"

subsection \<open>The earlier revision\<close>

text \<open>
  \<open>src/letterbox.go\<close> is an earlier revision of the package: its struct has no field
  \<open>padding\<close>, and its \<open>process\<close> has no skip check and never reads \<open>force\<close>. Two of its
  functions differ from the ones above. Its \<open>WithForce\<close> assigns the field \<open>white\<close>. Its
  \<open>parseAspect\<close>, which \<open>src/main.go\<close> has too, swaps the two numbers when the second
  is the greater one and returns the second over the first.
\<close>

definition WithForce_v1 :: "bool \<Rightarrow> Option" where
  "WithForce_v1 v p = Inr (p\<lparr>p_white := v\<rparr>, None)"

definition parseAspect_v1 :: "ParseFloat \<Rightarrow> string \<Rightarrow> fault + (f64 \<times> num_error option)" where
  "parseAspect_v1 pf s =
     (let parts = Split CHR '':'' s
      in case index parts 0 of
           Inl f \<Rightarrow> Inl f
         | Inr p0 \<Rightarrow>
            (case pf p0 of
               Inl err \<Rightarrow> Inr (Finite 0, Some err)
             | Inr a \<Rightarrow>
                (case index parts 1 of
                   Inl f \<Rightarrow> Inl f
                 | Inr p1 \<Rightarrow>
                    (case pf p1 of
                       Inl err \<Rightarrow> Inr (Finite 0, Some err)
                     | Inr b \<Rightarrow>
                        (let (a', b') = (if f64_gt b a then (b, a) else (a, b))
                         in Inr (f64_div b' a', None))))))"

text \<open>
  \<open>ParseDigits\<close> is \<open>strconv.ParseFloat\<close> on the strings it is used on below, the
  non-empty strings of decimal digits: the float64 nearest to the number, or the range
  error when that is an infinity. On every other string it answers with the syntax
  error, which the library does not always do; nothing below applies it to one.
\<close>

definition is_digit :: "char \<Rightarrow> bool" where
  "is_digit c = (c \<in> set ''0123456789'')"

definition ParseDigits :: ParseFloat where
  "ParseDigits s =
     (if s \<noteq> [] \<and> list_all is_digit s
      then (case round64 (of_nat (foldl (\<lambda>n c. 10 * n + (of_char c - 48)) 0 s)) of
              Finite r \<Rightarrow> Inr (Finite r)
            | _ \<Rightarrow> Inl ErrRange)
      else Inl ErrSyntax)"

section \<open>Layout\<close>

text \<open>
  \<open>centered\<close>, \<open>padding\<close> and \<open>aspect\<close> read only the \<open>Max\<close> corner of their arguments.
  The two that convert a float64 back to int are unspecified where the conversion is.
\<close>

definition centered :: "Rectangle \<Rightarrow> Rectangle \<Rightarrow> Rectangle" where
  "centered s d =
     (let sw = X (MaxP s); sh = Y (MaxP s); dw = X (MaxP d); dh = Y (MaxP d)
      in Rect (sub64 (half dw) (half sw))
              (sub64 (half dh) (half sh))
              (add64 (half dw) dw)
              (add64 (half dh) sh))"

definition padding :: "Rectangle \<Rightarrow> f64 \<Rightarrow> fault + Rectangle" where
  "padding r pad =
     (let w = f64_of_int (X (MaxP r)); h = f64_of_int (Y (MaxP r))
      in case f64_to_int (f64_add w (f64_mul w pad)) of
           Inl f \<Rightarrow> Inl f
         | Inr x1 \<Rightarrow>
            (case f64_to_int (f64_add h (f64_mul h pad)) of
               Inl f \<Rightarrow> Inl f
             | Inr y1 \<Rightarrow> Inr (Rect 0 0 x1 y1)))"

definition aspect :: "Rectangle \<Rightarrow> f64 \<Rightarrow> fault + Rectangle" where
  "aspect r a =
     (let w = f64_of_int (X (MaxP r)); h = f64_of_int (Y (MaxP r));
          (w', h') = (if f64_gt w h then (w, f64_div w a) else (f64_mul h a, h))
      in case f64_to_int w' of
           Inl f \<Rightarrow> Inl f
         | Inr x1 \<Rightarrow>
            (case f64_to_int h' of
               Inl f \<Rightarrow> Inl f
             | Inr y1 \<Rightarrow> Inr (Rect 0 0 x1 y1)))"

section \<open>The transform of one item\<close>

text \<open>
  \<open>os.Stat\<close> returns the file's info and no error, or no info (nil) and an error. Of the
  info only the modification time is read, an instant. \<open>os.IsNotExist\<close> holds of the
  error of a missing file and of no other.
\<close>

datatype errno = ENOENT | EACCES | ENOTDIR | EIO

definition IsNotExist :: "errno option \<Rightarrow> bool" where
  "IsNotExist err = (err = Some ENOENT)"

type_synonym Stat = "string \<Rightarrow> errno + int"

text \<open>
  \<open>unmodified\<close>. When the first \<open>os.Stat\<close> fails with another error than the one of a
  missing file, \<open>di\<close> is nil and the function goes on; \<open>di.ModTime()\<close> then panics, which
  it reaches when the second \<open>os.Stat\<close> succeeds.
\<close>

definition unmodified :: "Stat \<Rightarrow> string \<Rightarrow> string \<Rightarrow> fault + bool" where
  "unmodified stat src dst =
     (let (di, err) = (case stat dst of Inl e \<Rightarrow> (None, Some e) | Inr t \<Rightarrow> (Some t, None))
      in if IsNotExist err then Inr False
         else
           (case stat src of
              Inl e \<Rightarrow> Inr False
            | Inr si \<Rightarrow>
               (case di of
                  None \<Rightarrow> Inl NilDereference
                | Some dt \<Rightarrow> if si < dt then Inr True else Inr False)))"

text \<open>
  What \<open>process\<close> does outside the package is a parameter, the record \<open>world\<close>:
  \<open>filepath.Join\<close>; \<open>os.Stat\<close>; opening and decoding the source, which gives the bounds
  of the image or the error of the step that failed; and everything from \<open>image.NewRGBA\<close>
  to \<open>writeImage\<close>, which gets the canvas, the placement rectangle and the destination.
\<close>

datatype proc_error = Opening | Decoding | Creating | Encoding

record world =
  Join :: "string \<Rightarrow> string \<Rightarrow> string"
  Stat :: Stat
  Source :: "string \<Rightarrow> proc_error + Rectangle"
  Render :: "Rectangle \<Rightarrow> Rectangle \<Rightarrow> string \<Rightarrow> fault + proc_error option"

text \<open>
  \<open>process\<close> returns nil without touching the source (\<open>Unmodified\<close>), or runs the
  pipeline and returns its error or nil (\<open>Processed\<close>), or panics.
\<close>

datatype outcome = Unmodified | Processed "proc_error option"

definition process :: "world \<Rightarrow> Processor \<Rightarrow> string \<Rightarrow> fault + outcome" where
  "process w p path =
     (let dstpath = Join w (p_dir p) path
      in case unmodified (Stat w) path dstpath of
           Inl f \<Rightarrow> Inl f
         | Inr u \<Rightarrow>
            if u \<and> \<not> p_force p then Inr Unmodified
            else
              (case Source w path of
                 Inl err \<Rightarrow> Inr (Processed (Some err))
               | Inr sb \<Rightarrow>
                  (case aspect sb (p_aspect p) of
                     Inl f \<Rightarrow> Inl f
                   | Inr db \<Rightarrow>
                      (case padding db (p_padding p) of
                         Inl f \<Rightarrow> Inl f
                       | Inr db' \<Rightarrow>
                          (case Render w db' (centered sb db') dstpath of
                             Inl f \<Rightarrow> Inl f
                           | Inr err \<Rightarrow> Inr (Processed err))))))"

section \<open>The batch\<close>

text \<open>
  \<open>Process\<close> runs the main loop in one goroutine and every item in a goroutine of its
  own, so its runs are the interleavings of their steps. A state holds where the main
  goroutine stands, the counter \<open>cur\<close> of the weighted semaphore, whether the context is
  done, the goroutines that \<open>errg.Go\<close> has started, in that order, with the item and the
  phase of each, the error the error group has kept, and whether a goroutine has
  panicked, which ends the program.

  The semaphore and the error group belong to Go's libraries. The semaphore of size
  \<open>n\<close> grants \<open>Acquire(ctx, 1)\<close> when \<open>cur + 1 \<le> n\<close> and then adds 1 to \<open>cur\<close>, or
  returns the context's error once the context is done; \<open>Release(1)\<close> subtracts 1. The
  group is the zero \<open>errgroup.Group\<close>: it has no context to cancel, keeps the first error
  a function returns, and \<open>Wait\<close> returns that error when every goroutine has finished.
\<close>

datatype phase =
    Spawned
  | Running
  | Returned "proc_error option"
  | Released "proc_error option"
  | Finished

datatype run_error = ContextError | ItemError proc_error

datatype pc =
    Acquiring string "string list"
  | Spawning string "string list"
  | Waiting
  | Exited "run_error option"

record sched =
  main :: pc
  cur :: int
  ctx_done :: bool
  gos :: "(string \<times> phase) list"
  errg_err :: "proc_error option"
  panicked :: bool

text \<open>Where the \<open>for\<close> loop stands with the items \<open>images\<close> still to range over.\<close>

fun loop :: "string list \<Rightarrow> pc" where
  "loop [] = Waiting"
| "loop (path # images) = Acquiring path images"

definition init :: "string list \<Rightarrow> sched" where
  "init images =
     \<lparr>main = loop images, cur = 0, ctx_done = False, gos = [], errg_err = None,
      panicked = False\<rparr>"

text \<open>
  The steps. \<open>Cancel\<close>: the context becomes done. \<open>Acquire\<close> and \<open>AcquireErr\<close>: the two
  ways \<open>sem.Acquire\<close> returns. \<open>Go\<close>: \<open>errg.Go\<close> starts the goroutine of the item.
  \<open>Begin i\<close>: goroutine \<open>i\<close> calls \<open>p.process\<close>; \<open>End i r\<close>: the call returns \<open>r\<close>;
  \<open>Panic i\<close>: the call panics; \<open>Release i\<close>: the deferred \<open>sem.Release(1)\<close>;
  \<open>Record i\<close>: the group keeps the error if it is the first, and the goroutine is done.
  \<open>Wait\<close>: \<open>errg.Wait\<close> returns.
\<close>

datatype event =
    Cancel
  | Acquire
  | AcquireErr
  | Go
  | Begin nat
  | End nat "proc_error option"
  | Panic nat
  | Release nat
  | Record nat
  | Wait

definition phase_of :: "sched \<Rightarrow> nat \<Rightarrow> phase option" where
  "phase_of s i = (if i < length (gos s) then Some (snd (gos s ! i)) else None)"

definition set_phase :: "nat \<Rightarrow> phase \<Rightarrow> sched \<Rightarrow> sched" where
  "set_phase i ph s = s\<lparr>gos := (gos s)[i := (fst (gos s ! i), ph)]\<rparr>"

fun enabled :: "int \<Rightarrow> event \<Rightarrow> sched \<Rightarrow> sched option" where
  "enabled n Cancel s = Some (s\<lparr>ctx_done := True\<rparr>)"
| "enabled n Acquire s =
     (case main s of
        Acquiring path images \<Rightarrow>
          if cur s + 1 \<le> n then Some (s\<lparr>cur := cur s + 1, main := Spawning path images\<rparr>)
          else None
      | _ \<Rightarrow> None)"
| "enabled n AcquireErr s =
     (case main s of
        Acquiring path images \<Rightarrow>
          if ctx_done s then Some (s\<lparr>main := Exited (Some ContextError)\<rparr>) else None
      | _ \<Rightarrow> None)"
| "enabled n Go s =
     (case main s of
        Spawning path images \<Rightarrow>
          Some (s\<lparr>gos := gos s @ [(path, Spawned)], main := loop images\<rparr>)
      | _ \<Rightarrow> None)"
| "enabled n (Begin i) s =
     (case phase_of s i of Some Spawned \<Rightarrow> Some (set_phase i Running s) | _ \<Rightarrow> None)"
| "enabled n (End i r) s =
     (case phase_of s i of Some Running \<Rightarrow> Some (set_phase i (Returned r) s) | _ \<Rightarrow> None)"
| "enabled n (Panic i) s =
     (case phase_of s i of Some Running \<Rightarrow> Some (s\<lparr>panicked := True\<rparr>) | _ \<Rightarrow> None)"
| "enabled n (Release i) s =
     (case phase_of s i of
        Some (Returned r) \<Rightarrow> Some (set_phase i (Released r) (s\<lparr>cur := cur s - 1\<rparr>))
      | _ \<Rightarrow> None)"
| "enabled n (Record i) s =
     (case phase_of s i of
        Some (Released r) \<Rightarrow>
          Some (set_phase i Finished
                  (s\<lparr>errg_err := (if r \<noteq> None \<and> errg_err s = None then r else errg_err s)\<rparr>))
      | _ \<Rightarrow> None)"
| "enabled n Wait s =
     (case main s of
        Waiting \<Rightarrow>
          if list_all (\<lambda>g. snd g = Finished) (gos s)
          then Some (s\<lparr>main := Exited (map_option ItemError (errg_err s))\<rparr>)
          else None
      | _ \<Rightarrow> None)"

text \<open>A step of the program: none once a goroutine has panicked.\<close>

definition step :: "int \<Rightarrow> event \<Rightarrow> sched \<Rightarrow> sched option" where
  "step n e s = (if panicked s then None else enabled n e s)"

text \<open>
  A run of \<open>Process\<close> with a semaphore of size \<open>n\<close>: the state after the steps \<open>es\<close> from
  \<open>s\<close>, or \<open>None\<close> when one of them cannot be taken where it stands.
\<close>

fun run :: "int \<Rightarrow> event list \<Rightarrow> sched \<Rightarrow> sched option" where
  "run n [] s = Some s"
| "run n (e # es) s = (case step n e s of None \<Rightarrow> None | Some s' \<Rightarrow> run n es s')"

text \<open>
  \<open>Process\<close> of the processor \<open>p\<close>: the semaphore has the size \<open>p.concurrency\<close>.
\<close>

definition Process :: "Processor \<Rightarrow> string list \<Rightarrow> event list \<Rightarrow> sched option" where
  "Process p images es = run (p_concurrency p) es (init images)"

text \<open>
  The goroutines inside \<open>p.process\<close>, and the units of the semaphore that are held: one
  by each goroutine from its start to its \<open>sem.Release\<close>, and one by the main goroutine
  between \<open>sem.Acquire\<close> and \<open>errg.Go\<close>.
\<close>

definition executing :: "sched \<Rightarrow> int" where
  "executing s = int (length (filter (\<lambda>g. snd g = Running) (gos s)))"

fun holds_unit :: "phase \<Rightarrow> bool" where
  "holds_unit Spawned = True"
| "holds_unit Running = True"
| "holds_unit (Returned r) = True"
| "holds_unit _ = False"

definition held :: "sched \<Rightarrow> int" where
  "held s =
     int (length (filter (\<lambda>g. holds_unit (snd g)) (gos s)))
       + (case main s of Spawning path images \<Rightarrow> 1 | _ \<Rightarrow> 0)"



text \<open>
  The invariant of the semaphore: its counter is the number of units held and does not
  exceed its size \<open>n\<close>.
\<close>

definition sem_inv :: "int \<Rightarrow> sched \<Rightarrow> bool" where
  "sem_inv n s = (cur s = held s \<and> cur s \<le> n)"



section \<open>Options that leave the aspect ratio alone\<close>

text \<open>
  The options of the package other than \<open>WithAspect\<close>.
\<close>

definition aspect_free :: "Option \<Rightarrow> bool" where
  "aspect_free opt =
     (opt \<in> range WithWhiteBackground \<union> range WithForce \<union> range WithPadding
        \<union> range WithQuality \<union> range WithConcurrency)"

section \<open>Facts about rounding\<close>

text \<open>
  What the theorems below need of \<open>round64\<close>: the integers up to \<open>2 ^ 53\<close> in absolute
  value, and their multiples by a power of two within the exponent range, are float64
  values, so rounding leaves them as they are; and rounding never takes a number below
  such an integer that it was not below before.
\<close>

lemma pow2_powi: "pow2 e = 2 powi e"
  by (simp add: pow2_def power_int_def inverse_eq_divide power_one_over)

lemma pow2_pos: "0 < pow2 e"
  by (simp add: pow2_powi)

lemma pow2_add: "pow2 (i + j) = pow2 i * pow2 j"
  by (simp add: pow2_powi power_int_add)

lemma pow2_diff: "pow2 (i - j) = pow2 i / pow2 j"
  by (simp add: pow2_powi power_int_diff)

lemma pow2_nat: "pow2 (int k) = 2 ^ k"
  by (simp add: pow2_powi)

lemma pow2_mono: "i \<le> j \<Longrightarrow> pow2 i \<le> pow2 j"
  by (simp add: pow2_powi power_int_increasing)

lemma pow2_strict_mono:
  assumes "i < j"
  shows "pow2 i < pow2 j"
proof -
  have "pow2 j = pow2 i * pow2 (j - i)" using pow2_add [of i "j - i"] by simp
  moreover have "(1::rat) < pow2 (j - i)"
    using assms by (simp add: pow2_def one_less_power)
  ultimately show ?thesis using pow2_pos [of i] by simp
qed

lemma pow2_le_cancel: "pow2 i \<le> pow2 j \<Longrightarrow> i \<le> j"
  using pow2_strict_mono [of j i] by (cases "i \<le> j") auto

lemma floorlog2_le:
  assumes "0 < a"
  shows "pow2 (floorlog2 a) \<le> a"
proof -
  obtain p q where pq: "quotient_of a = (p, q)" by (cases "quotient_of a")
  have q: "0 < q" using pq by (rule quotient_of_denom_pos)
  have a: "a = of_int p / of_int q" using pq by (simp add: quotient_of_div)
  have p: "0 < p" using assms q a by (simp add: zero_less_divide_iff)
  let ?e = "bitlen p - bitlen q"
  show ?thesis
  proof (cases "pow2 ?e \<le> a")
    case True
    then show ?thesis by (simp add: floorlog2_def pq)
  next
    case False
    have bp: "(2::int) ^ nat (bitlen p - 1) \<le> p" using bitlen_bounds [OF p] by simp
    have bq: "q < 2 ^ nat (bitlen q)" using bitlen_bounds [OF q] by simp
    have bp1: "1 \<le> bitlen p" using p bitlen_eq_zero_iff [of p] bitlen_nonneg [of p] by linarith
    have "pow2 (bitlen p - 1) \<le> of_int p"
    proof -
      have "pow2 (bitlen p - 1) = of_int (2 ^ nat (bitlen p - 1))"
        using bp1 by (simp add: pow2_def)
      also have "\<dots> \<le> of_int p" using bp by (simp only: of_int_le_iff)
      finally show ?thesis .
    qed
    moreover have "of_int q \<le> pow2 (bitlen q)"
    proof -
      have "q \<le> 2 ^ nat (bitlen q)" using bq by simp
      then have "(of_int q :: rat) \<le> of_int (2 ^ nat (bitlen q))"
        by (simp only: of_int_le_iff)
      also have "\<dots> = pow2 (bitlen q)"
        using bitlen_nonneg [of q] by (simp add: pow2_def)
      finally show ?thesis .
    qed
    ultimately have "pow2 (bitlen p - 1) / pow2 (bitlen q) \<le> of_int p / of_int q"
      using q p pow2_pos by (intro frac_le) auto
    then have "pow2 (?e - 1) \<le> a"
      using pow2_diff [of "bitlen p - 1" "bitlen q"] a by (simp add: algebra_simps)
    with False show ?thesis by (simp add: floorlog2_def pq)
  qed
qed

lemma round_half_even_ge_floor: "\<lfloor>q\<rfloor> \<le> round_half_even q"
  by (simp add: round_half_even_def Let_def)

lemma round_half_even_of_int: "round_half_even (of_int k) = k"
  by (simp add: round_half_even_def Let_def)


lemma of_int_le_pow2_53: "n \<le> 2 ^ 53 \<Longrightarrow> (of_int n :: rat) \<le> pow2 53"
proof -
  assume "n \<le> 2 ^ 53"
  then have "(of_int n :: rat) \<le> of_int (2 ^ 53)" by (simp only: of_int_le_iff)
  then show ?thesis by (simp add: pow2_def)
qed

lemma round64_dyadic_pos:
  assumes n: "0 < n" "n \<le> 2 ^ 53" and k: "- 1074 \<le> k" "k \<le> 970"
  shows "round64 (of_int n * pow2 k) = Finite (of_int n * pow2 k)"
proof -
  define a :: rat where "a = of_int n * pow2 k"
  define e where "e = max (floorlog2 a) (- 1022)"
  have apos: "0 < a" using n pow2_pos by (simp add: a_def)
  have a_le: "a \<le> pow2 (53 + k)"
    using of_int_le_pow2_53 [OF n(2)] pow2_pos [of k]
    by (simp add: a_def mult_right_mono pow2_add)
  have "pow2 (floorlog2 a) \<le> a" using apos by (rule floorlog2_le)
  with a_le have "pow2 (floorlog2 a) \<le> pow2 (53 + k)" by simp
  then have fl53: "floorlog2 a \<le> 53 + k" by (rule pow2_le_cancel)
  have e_cases: "e = floorlog2 a \<or> e = - 1022" by (auto simp: e_def max_def)
  have e53: "e \<le> 53 + k" using fl53 k e_cases by auto
  have q_int: "\<exists>m. a / pow2 (e - 52) = of_int m"
  proof (cases "e \<le> 52 + k")
    case True
    then have "0 \<le> k - (e - 52)" by simp
    then have "pow2 (k - (e - 52)) = of_int (2 ^ nat (k - (e - 52)))"
      by (simp add: pow2_def)
    moreover have "a / pow2 (e - 52) = of_int n * pow2 (k - (e - 52))"
      by (simp add: a_def pow2_diff)
    ultimately have "a / pow2 (e - 52) = of_int (n * 2 ^ nat (k - (e - 52)))"
      by simp
    then show ?thesis by blast
  next
    case False
    with e53 have e: "e = 53 + k" by simp
    with e_cases k have flk: "floorlog2 a = 53 + k" by auto
    have "pow2 53 * pow2 k \<le> a"
      using floorlog2_le [OF apos] flk by (simp add: pow2_add)
    then have "pow2 53 \<le> (of_int n :: rat)"
      using pow2_pos [of k] by (simp add: a_def)
    then have "(of_int (2 ^ 53) :: rat) \<le> of_int n" by (simp add: pow2_def)
    then have "2 ^ 53 \<le> n" by (simp only: of_int_le_iff)
    with n have n53: "n = 2 ^ 53" by simp
    have "a / pow2 (e - 52) = pow2 (53 + k) / pow2 (1 + k)"
      using e n53 by (simp add: a_def pow2_add) (simp add: pow2_def)
    also have "\<dots> = pow2 52"
      using pow2_diff [of "53 + k" "1 + k"] by simp
    also have "\<dots> = of_int (2 ^ 52)" by (simp add: pow2_def)
    finally show ?thesis by blast
  qed
  then obtain m where m: "a / pow2 (e - 52) = of_int m" by blast
  have r: "of_int (round_half_even (a / pow2 (e - 52))) * pow2 (e - 52) = a"
    using m pow2_pos [of "e - 52"] by (simp add: round_half_even_of_int field_simps)
  have small: "\<not> pow2 1024 \<le> a"
  proof -
    have "pow2 (53 + k) \<le> pow2 1023" using k by (intro pow2_mono) simp
    moreover have "pow2 1023 < pow2 1024" by (rule pow2_strict_mono) simp
    ultimately show ?thesis using a_le by simp
  qed
  have "round64 a = Finite a"
    unfolding round64_def Let_def abs_of_pos [OF apos] e_def [symmetric] r
    using apos small by simp
  then show ?thesis by (simp add: a_def)
qed

lemma round64_0: "round64 0 = Finite 0"
  by (simp add: round64_def)

lemma round64_neg:
  assumes "0 < x" "round64 x = Finite r" "r \<noteq> 0"
  shows "round64 (- x) = Finite (- r)"
  using assms by (simp add: round64_def Let_def split: if_splits)

lemma round64_int:
  assumes "\<bar>n\<bar> \<le> 2 ^ 53"
  shows "round64 (of_int n) = Finite (of_int n)"
proof -
  have pos: "round64 (of_int m) = Finite (of_int m)" if "0 < m" "m \<le> 2 ^ 53" for m
    using round64_dyadic_pos [OF that, of 0] by (simp add: pow2_def)
  consider "n = 0" | "0 < n" | "n < 0" by linarith
  then show ?thesis
  proof cases
    case 1
    then show ?thesis by (simp add: round64_def)
  next
    case 2
    with assms show ?thesis by (intro pos) auto
  next
    case 3
    with assms have r: "round64 (of_int (- n)) = Finite (of_int (- n))" by (intro pos) auto
    have p: "(0::rat) < of_int (- n)" and z: "(of_int (- n) :: rat) \<noteq> 0" using 3 by simp_all
    have "round64 (- of_int (- n)) = Finite (- of_int (- n))"
      using p r z by (rule round64_neg)
    then show ?thesis by simp
  qed
qed

lemma round64_ge_int:
  assumes n: "0 < n" "n \<le> 2 ^ 53" and x: "of_int n \<le> x"
  shows "round64 x = PosInf \<or> (\<exists>r. round64 x = Finite r \<and> of_int n \<le> r)"
proof -
  define e where "e = max (floorlog2 x) (- 1022)"
  define ulp where "ulp = pow2 (e - 52)"
  define m where "m = round_half_even (x / ulp)"
  have xpos: "0 < x" using n x by (meson less_le_trans of_int_0_less_iff)
  have ulp_pos: "0 < ulp" by (simp add: ulp_def pow2_pos)
  have fm: "\<lfloor>x / ulp\<rfloor> \<le> m" by (simp add: m_def round_half_even_ge_floor)
  have eq: "round64 x = (if pow2 1024 \<le> of_int m * ulp then PosInf else Finite (of_int m * ulp))"
    unfolding round64_def Let_def abs_of_pos [OF xpos] e_def [symmetric] ulp_def [symmetric]
      m_def [symmetric]
    using xpos by simp
  have "of_int n \<le> of_int m * ulp"
  proof (cases "e \<le> 52")
    case True
    define K :: int where "K = 2 ^ nat (52 - e)"
    have K: "pow2 (52 - e) = of_int K" using True by (simp add: K_def pow2_def)
    have "ulp * of_int K = pow2 (e - 52) * pow2 (52 - e)" by (simp only: ulp_def K)
    also have "\<dots> = pow2 0" using pow2_add [of "e - 52" "52 - e"] by simp
    finally have ulpK: "ulp * of_int K = 1" by (simp add: pow2_def)
    have Kpos: "(0::rat) < of_int K" by (simp add: K_def)
    have xK: "x / ulp = x * of_int K"
      using ulpK ulp_pos by (simp add: field_simps)
    have "(of_int (n * K) :: rat) \<le> x * of_int K"
      using x Kpos by (simp add: mult_right_mono)
    then have "n * K \<le> \<lfloor>x / ulp\<rfloor>" by (simp only: xK le_floor_iff)
    with fm have "n * K \<le> m" by linarith
    then have "(of_int (n * K) :: rat) \<le> of_int m" by (simp only: of_int_le_iff)
    then have "of_int (n * K) * ulp \<le> of_int m * ulp"
      using ulp_pos by (simp only: mult_le_cancel_right_pos)
    then show ?thesis using ulpK by (simp add: mult.assoc mult.commute [of "of_int K"])
  next
    case False
    then have e_fl: "e = floorlog2 x" by (auto simp: e_def max_def)
    have "pow2 e \<le> x" unfolding e_fl using xpos by (rule floorlog2_le)
    then have "pow2 e / ulp \<le> x / ulp" using ulp_pos by (simp add: divide_right_mono)
    moreover have "pow2 e / ulp = of_int (2 ^ 52)"
      using pow2_diff [of e "e - 52"] by (simp add: ulp_def pow2_def)
    ultimately have "(of_int (2 ^ 52) :: rat) \<le> x / ulp" by simp
    then have "2 ^ 52 \<le> \<lfloor>x / ulp\<rfloor>" by (simp only: le_floor_iff)
    with fm have "2 ^ 52 \<le> m" by linarith
    then have "(of_int (2 ^ 52) :: rat) \<le> of_int m" by (simp only: of_int_le_iff)
    then have "of_int (2 ^ 52) * ulp \<le> of_int m * ulp"
      using ulp_pos by (simp only: mult_le_cancel_right_pos)
    moreover have "of_int (2 ^ 52) * ulp = pow2 e"
      using pow2_add [of 52 "e - 52"] by (simp add: ulp_def pow2_def)
    moreover have "pow2 53 \<le> pow2 e" using False by (intro pow2_mono) simp
    moreover note of_int_le_pow2_53 [OF n(2)]
    ultimately show ?thesis by simp
  qed
  then show ?thesis by (simp add: eq)
qed

lemma round64_nonneg:
  assumes "0 \<le> x" "round64 x = Finite r"
  shows "0 \<le> r"
proof (cases "x = 0")
  case True
  with assms show ?thesis by (simp add: round64_def)
next
  case False
  define ulp where "ulp = pow2 (max (floorlog2 x) (- 1022) - 52)"
  have ulp_pos: "0 < ulp" by (simp add: ulp_def pow2_pos)
  have xpos: "0 < x" using assms False by simp
  have "0 \<le> \<lfloor>x / ulp\<rfloor>" using xpos ulp_pos by simp
  then have "0 \<le> round_half_even (x / ulp)"
    using round_half_even_ge_floor [of "x / ulp"] by linarith
  then have "(0::rat) \<le> of_int (round_half_even (x / ulp)) * ulp"
    using ulp_pos by simp
  moreover have "r = of_int (round_half_even (x / ulp)) * ulp"
    using assms(2) xpos
    unfolding round64_def Let_def abs_of_pos [OF xpos] ulp_def [symmetric]
    by (simp split: if_splits)
  ultimately show ?thesis by simp
qed

lemma trunc_of_int: "trunc (of_int n) = n"
  by (simp add: trunc_def)

lemma trunc_ge:
  assumes "of_int n \<le> r" "0 \<le> n"
  shows "n \<le> trunc r"
proof -
  have "0 \<le> r" using assms by (meson of_int_0_le_iff order_trans)
  then show ?thesis using assms by (simp add: trunc_def le_floor_iff)
qed

lemma trunc_nonneg: "0 \<le> r \<Longrightarrow> 0 \<le> trunc r"
  by (simp add: trunc_def)

lemma f64_of_int_exact: "\<bar>n\<bar> \<le> 2 ^ 53 \<Longrightarrow> f64_of_int n = Finite (of_int n)"
  by (simp add: f64_of_int_def round64_int)

lemma f64_to_int_of_int:
  "- (2 ^ 63) \<le> n \<Longrightarrow> n < 2 ^ 63 \<Longrightarrow> f64_to_int (Finite (of_int n)) = Inr n"
  by (simp add: trunc_of_int)

section \<open>Options\<close>

text \<open>
  The two options in the revision of \<open>src/unnamed/part_000\<close>: \<open>WithForce v\<close> writes the
  field \<open>force\<close> and nothing else, so the field \<open>white\<close> keeps its value;
  \<open>WithWhiteBackground v\<close> writes the field \<open>white\<close> and nothing else, so the field
  \<open>force\<close> keeps its value. Neither returns an error.
\<close>

theorem WithForce_WithWhiteBackground_independent:
  "(\<exists>q. WithForce v p = Inr (q, None) \<and>
        p_force q = v \<and> p_white q = p_white p \<and> p_dir q = p_dir p \<and>
        p_aspect q = p_aspect p \<and> p_quality q = p_quality p \<and>
        p_concurrency q = p_concurrency p \<and> p_padding q = p_padding p) \<and>
   (\<exists>q. WithWhiteBackground v p = Inr (q, None) \<and>
        p_white q = v \<and> p_force q = p_force p \<and> p_dir q = p_dir p \<and>
        p_aspect q = p_aspect p \<and> p_quality q = p_quality p \<and>
        p_concurrency q = p_concurrency p \<and> p_padding q = p_padding p)"
  by (simp add: WithForce_def WithWhiteBackground_def)

text \<open>
  The \<open>WithForce\<close> of the earlier revision is its \<open>WithWhiteBackground\<close>: it writes
  \<open>white\<close> and leaves \<open>force\<close> as it was.
\<close>

lemma WithForce_v1_writes_white:
  "WithForce_v1 v p = WithWhiteBackground v p \<and>
   (\<exists>q. WithForce_v1 v p = Inr (q, None) \<and> p_white q = v \<and> p_force q = p_force p)"
  by (simp add: WithForce_v1_def WithWhiteBackground_def)

text \<open>
  C8, at an input where the code fails: the \<open>WithForce\<close> of \<open>src/letterbox.go\<close> with the
  value true, as the only option of \<open>New\<close>. The processor that \<open>New\<close> returns has
  \<open>white\<close> set and \<open>force\<close> still false: the option wrote the field of the other
  option and not its own.
\<close>

theorem WithForce_v1_sets_white_not_force:
  "New ''processed'' [WithForce_v1 True] =
     Inr (Inr \<lparr>p_dir = ''processed'', p_white = True, p_aspect = Finite 0, p_quality = 90,
               p_concurrency = 1, p_padding = Finite 0, p_force = False\<rparr>)"
  by (simp add: New_def WithForce_v1_def zero_Processor_def)

section \<open>Parsing the aspect ratio\<close>

lemma Split_no_sep: "c \<notin> set s \<Longrightarrow> Split c s = [s]"
  by (induction s) auto

lemma Split_append_sep: "c \<notin> set sa \<Longrightarrow> Split c (sa @ c # sb) = sa # Split c sb"
  by (induction sa) auto

lemma Split_first:
  "c \<notin> set sa \<Longrightarrow> c \<notin> set sb \<Longrightarrow> Split c (sa @ c # sb) = [sa, sb]"
  by (simp add: Split_append_sep Split_no_sep)

text \<open>\<open>ParseDigits\<close> and \<open>round64\<close> at the numbers of the examples.\<close>

lemma ParseDigits_16: "ParseDigits ''16'' = Inr (Finite 16)"
  using round64_int [of 16] by (simp add: ParseDigits_def is_digit_def)

lemma ParseDigits_1: "ParseDigits ''1'' = Inr (Finite 1)"
  using round64_int [of 1] by (simp add: ParseDigits_def is_digit_def)

lemma ParseDigits_2: "ParseDigits ''2'' = Inr (Finite 2)"
  using round64_int [of 2] by (simp add: ParseDigits_def is_digit_def)

lemma round64_half: "round64 (1 / 2) = Finite (1 / 2)"
  using round64_dyadic_pos [of 1 "- 1"] by (simp add: pow2_def)

text \<open>
  A string without a colon splits into one part. When that part parses as a number,
  \<open>parseAspect\<close> goes on to \<open>parts[1]\<close>, which is out of range.
\<close>

lemma parseAspect_no_colon:
  assumes "CHR '':'' \<notin> set s" "pf s = Inr a"
  shows "parseAspect pf s = Inl (IndexOutOfRange 1 1)"
  using assms by (simp add: parseAspect_def Split_no_sep index_def)

text \<open>
  C9, at an input where the code fails: the ratio \<open>16\<close> has no colon and parses as a
  number, so \<open>parseAspect\<close> panics with index 1 out of range for length 1, and so does
  \<open>New\<close> with the option \<open>WithAspect\<close> of that ratio, where an error was to be returned.
\<close>

theorem New_WithAspect_without_colon_panics:
  "parseAspect ParseDigits ''16'' = Inl (IndexOutOfRange 1 1) \<and>
   New ''processed'' [WithAspect ParseDigits ''16''] = Inl (IndexOutOfRange 1 1)"
  using parseAspect_no_colon [of "''16''" ParseDigits "Finite 16"]
  by (simp add: New_def WithAspect_def ParseDigits_16)

text \<open>
  The \<open>parseAspect\<close> of the earlier revision gives the smaller number over the greater
  one: 1/2 for \<open>1:2\<close> and for \<open>2:1\<close>.
\<close>

lemma parseAspect_v1_min_over_max:
  "parseAspect_v1 ParseDigits ''1:2'' = Inr (Finite (1 / 2), None) \<and>
   parseAspect_v1 ParseDigits ''2:1'' = Inr (Finite (1 / 2), None)"
  by (simp add: parseAspect_v1_def index_def ParseDigits_1 ParseDigits_2 round64_half)

text \<open>
  C5, as the code has it. In the revision of \<open>src/unnamed/part_000\<close>, of \<open>1:2\<close> the
  factor is 1/2, which is neither the greater number over the smaller one nor at least
  1, and of \<open>2:1\<close> the factor is 2, another one. In the revision of \<open>src/letterbox.go\<close>
  and \<open>src/main.go\<close>, of \<open>2:1\<close> the factor is 1/2, again neither the greater number
  over the smaller one nor at least 1.
\<close>

theorem parseAspect_not_normalised:
  "parseAspect ParseDigits ''1:2'' = Inr (Finite (1 / 2), None) \<and>
   parseAspect ParseDigits ''2:1'' = Inr (Finite 2, None) \<and>
   parseAspect_v1 ParseDigits ''2:1'' = Inr (Finite (1 / 2), None)"
  using round64_int [of 2]
  by (simp add: parseAspect_def parseAspect_v1_def index_def ParseDigits_1 ParseDigits_2
      round64_half)

text \<open>
  C5, amended. For all strings \<open>A\<close> and \<open>B\<close> without a colon that \<open>ParseFloat\<close> reads
  as the numbers \<open>a\<close> and \<open>b\<close>, and for \<open>A:B\<close> as the ratio: the \<open>parseAspect\<close> of
  \<open>src/unnamed/part_000\<close> returns the float64 quotient \<open>a / b\<close> and no error, the first
  number over the second whichever is greater; the \<open>parseAspect\<close> of \<open>src/letterbox.go\<close>
  and \<open>src/main.go\<close> returns \<open>a / b\<close> when \<open>b > a\<close> and \<open>b / a\<close> otherwise, the smaller
  number over the greater one, and no error. Neither returns the greater number over
  the smaller one.
\<close>

theorem parseAspect_quotient:
  assumes "CHR '':'' \<notin> set sa" "CHR '':'' \<notin> set sb" "pf sa = Inr a" "pf sb = Inr b"
  shows "parseAspect pf (sa @ CHR '':'' # sb) = Inr (f64_div a b, None) \<and>
    parseAspect_v1 pf (sa @ CHR '':'' # sb) =
      Inr (if f64_gt b a then f64_div a b else f64_div b a, None)"
  using assms by (simp add: parseAspect_def parseAspect_v1_def Split_first index_def)

text \<open>
  At \<open>1:2\<close> the two revisions agree on 1/2; at \<open>2:1\<close> the first gives 2 and the second
  1/2.
\<close>

theorem parseAspect_quotient_witness:
  "CHR '':'' \<notin> set ''1'' \<and> CHR '':'' \<notin> set ''2'' \<and>
   ParseDigits ''1'' = Inr (Finite 1) \<and> ParseDigits ''2'' = Inr (Finite 2) \<and>
   parseAspect ParseDigits ''1:2'' = Inr (f64_div (Finite 1) (Finite 2), None) \<and>
   parseAspect_v1 ParseDigits ''1:2'' = Inr (f64_div (Finite 1) (Finite 2), None) \<and>
   f64_div (Finite 1) (Finite 2) = Finite (1 / 2) \<and>
   parseAspect ParseDigits ''2:1'' = Inr (f64_div (Finite 2) (Finite 1), None) \<and>
   parseAspect_v1 ParseDigits ''2:1'' = Inr (f64_div (Finite 1) (Finite 2), None) \<and>
   f64_div (Finite 2) (Finite 1) = Finite 2"
  using parseAspect_quotient [of "''1''" "''2''" ParseDigits "Finite 1" "Finite 2"]
    parseAspect_quotient [of "''2''" "''1''" ParseDigits "Finite 2" "Finite 1"]
    round64_int [of 2]
  by (simp add: ParseDigits_1 ParseDigits_2 round64_half)

text \<open>
  A divisor that is the zero of negative sign gives the infinity of the other sign, so
  a ratio whose second number parses to it has a negative infinite factor.
\<close>

lemma parseAspect_negative_zero:
  assumes "CHR '':'' \<notin> set sa" "CHR '':'' \<notin> set sb" "pf sa = Inr (Finite 1)"
    "pf sb = Inr NegZero"
  shows "parseAspect pf (sa @ CHR '':'' # sb) = Inr (NegInf, None)"
  using assms by (simp add: parseAspect_def Split_first index_def)

section \<open>The skip check\<close>

text \<open>\<open>unmodified\<close>, case by case.\<close>

lemma unmodified_cases:
  "unmodified stat src dst =
     (case stat dst of
        Inl e \<Rightarrow>
          if e = ENOENT then Inr False
          else (case stat src of Inl e' \<Rightarrow> Inr False | Inr si \<Rightarrow> Inl NilDereference)
      | Inr dt \<Rightarrow> (case stat src of Inl e' \<Rightarrow> Inr False | Inr si \<Rightarrow> Inr (si < dt)))"
  by (simp add: unmodified_def IsNotExist_def split: sum.splits)

text \<open>
  C7, at an input where the code fails: the destination cannot be examined (permission
  denied, not a missing file) and the source can. \<open>unmodified\<close> does not return false:
  it calls \<open>ModTime\<close> on the nil info of the destination and panics.
\<close>

theorem unmodified_panics_on_stat_error:
  "unmodified (\<lambda>f. if f = ''processed/a.jpg'' then Inl EACCES else Inr 7)
     ''a.jpg'' ''processed/a.jpg'' = Inl NilDereference"
  by (simp add: unmodified_cases)

text \<open>
  When \<open>process\<close> skips an item: exactly when \<open>force\<close> is off, both files can be
  examined and the destination is strictly newer than the source.
\<close>

lemma process_Unmodified_iff:
  "process w p path = Inr Unmodified \<longleftrightarrow>
     \<not> p_force p \<and>
     (\<exists>dt si. Stat w (Join w (p_dir p) path) = Inr dt \<and> Stat w path = Inr si \<and> si < dt)"
  by (auto simp: process_def unmodified_cases Let_def split: sum.splits if_splits)

text \<open>
  C6, at an input where the code fails: \<open>force\<close> is on, the destination cannot be
  examined (permission denied) and the source can. \<open>process\<close> calls \<open>unmodified\<close> before
  it looks at \<open>force\<close>, so the item is not processed: the call panics.
\<close>

theorem process_forced_panics_on_stat_error:
  "process \<lparr>Join = (\<lambda>dir path. dir @ ''/'' @ path),
            Stat = (\<lambda>f. if f = ''processed/a.jpg'' then Inl EACCES else Inr 7),
            Source = (\<lambda>f. Inr (Rect 0 0 4 2)),
            Render = (\<lambda>db dr f. Inr None)\<rparr>
     (zero_Processor\<lparr>p_dir := ''processed'', p_force := True\<rparr>) ''a.jpg''
   = Inl NilDereference"
  by (simp add: process_def unmodified_cases)

section \<open>The canvas\<close>

text \<open>The conversions to int that \<open>aspect\<close> makes, and its two branches.\<close>

lemma Rect_origin:
  "0 \<le> w \<Longrightarrow> 0 \<le> h \<Longrightarrow>
   Rect 0 0 w h = \<lparr>MinP = \<lparr>X = 0, Y = 0\<rparr>, MaxP = \<lparr>X = w, Y = h\<rparr>\<rparr>"
  by (simp add: Rect_def)

lemma f64_to_int_ge:
  assumes "round64 x = PosInf \<or> (\<exists>r. round64 x = Finite r \<and> of_int n \<le> r)"
    "f64_to_int (round64 x) = Inr y" "0 \<le> n"
  shows "n \<le> y"
  using assms by (auto simp: Let_def trunc_ge split: if_splits)

lemma f64_to_int_nonneg:
  assumes "0 \<le> x" "f64_to_int (round64 x) = Inr y"
  shows "0 \<le> y"
proof (cases "round64 x")
  case (Finite r)
  have "0 \<le> r" using assms(1) Finite by (rule round64_nonneg)
  with Finite assms(2) show ?thesis by (auto simp: Let_def trunc_nonneg split: if_splits)
qed (use assms in auto)

lemma aspect_landscape:
  assumes "0 < w" "w \<le> 2 ^ 53" "0 \<le> h" "h < w" "f \<noteq> 0"
  shows "aspect (Rect 0 0 w h) (Finite f) =
    (case f64_to_int (round64 (of_int w / f)) of
       Inl e \<Rightarrow> Inl e
     | Inr y1 \<Rightarrow> Inr (Rect 0 0 w y1))"
proof -
  have fw: "f64_of_int w = Finite (of_int w)" and fh: "f64_of_int h = Finite (of_int h)"
    using assms by (simp_all add: f64_of_int_exact)
  have iw: "f64_to_int (Finite (of_int w)) = Inr w"
    using assms by (intro f64_to_int_of_int) auto
  have d: "f64_div (Finite (of_int w)) (Finite f) = round64 (of_int w / f)"
    using assms by simp
  have g: "f64_gt (Finite (of_int w)) (Finite (of_int h))" using assms by simp
  show ?thesis
    using assms(1,3) unfolding aspect_def Let_def
    by (simp only: Rect_origin Rectangle.simps Point.simps fw fh g if_True prod.case iw d sum.case)
qed

lemma aspect_portrait:
  assumes "0 \<le> w" "w \<le> h" "0 < h" "h \<le> 2 ^ 53"
  shows "aspect (Rect 0 0 w h) (Finite f) =
    (case f64_to_int (round64 (of_int h * f)) of
       Inl e \<Rightarrow> Inl e
     | Inr x1 \<Rightarrow> Inr (Rect 0 0 x1 h))"
proof -
  have fw: "f64_of_int w = Finite (of_int w)" and fh: "f64_of_int h = Finite (of_int h)"
    using assms by (simp_all add: f64_of_int_exact)
  have ih: "f64_to_int (Finite (of_int h)) = Inr h"
    using assms by (intro f64_to_int_of_int) auto
  have d: "f64_mul (Finite (of_int h)) (Finite f) = round64 (of_int h * f)"
    using assms by (simp add: round64_0)
  have g: "\<not> f64_gt (Finite (of_int w)) (Finite (of_int h))" using assms by simp
  have "0 \<le> h" using assms by simp
  with assms(1) show ?thesis
    unfolding aspect_def Let_def
    by (simp only: Rect_origin Rectangle.simps Point.simps fw fh g if_False prod.case ih d sum.case)
qed

text \<open>
  C3, as the code has it: with the factor 2, which is what \<open>2:1\<close> parses to, a source
  of 1000 by 900 gets a canvas of 1000 by 500. The canvas is lower than the source.
\<close>

theorem aspect_crops_1000x900:
  "parseAspect ParseDigits ''2:1'' = Inr (Finite 2, None) \<and>
   aspect (Rect 0 0 1000 900) (Finite 2) =
     Inr \<lparr>MinP = \<lparr>X = 0, Y = 0\<rparr>, MaxP = \<lparr>X = 1000, Y = 500\<rparr>\<rparr>"
  using round64_int [of 2] round64_int [of 500]
  by (simp add: parseAspect_def index_def ParseDigits_1 ParseDigits_2
      aspect_def Rect_origin f64_of_int_exact trunc_def)

text \<open>
  C3, amended. For every source of width \<open>w\<close> and height \<open>h\<close>, both positive and at most
  \<open>2 ^ 53\<close>, and every finite positive factor \<open>f\<close> for which \<open>aspect\<close> returns a canvas:
  the canvas starts at the origin and keeps the larger source axis, the width when
  \<open>w > h\<close> and the height otherwise; the other axis is derived from it, as
  \<open>int(w / f)\<close> when \<open>w > h\<close> and as \<open>int(h * f)\<close> otherwise. The canvas contains the
  source when \<open>w > h\<close> and \<open>f \<le> 1\<close>, and when \<open>w \<le> h\<close> and \<open>f \<ge> 1\<close>; in the other cases
  the derived axis may be shorter than the source's.
\<close>

theorem aspect_keeps_larger_axis:
  assumes w: "0 < w" "w \<le> 2 ^ 53" and h: "0 < h" "h \<le> 2 ^ 53" and f: "0 < f"
    and c: "aspect (Rect 0 0 w h) (Finite f) = Inr c"
  shows "MinP c = \<lparr>X = 0, Y = 0\<rparr> \<and>
    (h < w \<longrightarrow> X (MaxP c) = w \<and>
       f64_to_int (f64_div (f64_of_int w) (Finite f)) = Inr (Y (MaxP c))) \<and>
    (w \<le> h \<longrightarrow> Y (MaxP c) = h \<and>
       f64_to_int (f64_mul (f64_of_int h) (Finite f)) = Inr (X (MaxP c))) \<and>
    (h < w \<and> f \<le> 1 \<or> w \<le> h \<and> 1 \<le> f \<longrightarrow> w \<le> X (MaxP c) \<and> h \<le> Y (MaxP c))"
proof (cases "h < w")
  case True
  have fw: "f64_of_int w = Finite (of_int w)" using w by (simp add: f64_of_int_exact)
  have d: "f64_div (Finite (of_int w)) (Finite f) = round64 (of_int w / f)" using f w by simp
  have "(case f64_to_int (round64 (of_int w / f)) of
       Inl e \<Rightarrow> Inl e | Inr y1 \<Rightarrow> Inr (Rect 0 0 w y1)) = Inr c"
    using aspect_landscape [of w h f] w h f True c by simp
  then obtain y where y: "f64_to_int (round64 (of_int w / f)) = Inr y" and cc: "c = Rect 0 0 w y"
    by (cases "f64_to_int (round64 (of_int w / f))") auto
  have "0 \<le> of_int w / f" using w f by simp
  then have y0: "0 \<le> y" using y by (rule f64_to_int_nonneg)
  have c': "c = \<lparr>MinP = \<lparr>X = 0, Y = 0\<rparr>, MaxP = \<lparr>X = w, Y = y\<rparr>\<rparr>"
    using w y0 by (simp add: cc Rect_origin)
  have contain: "w \<le> y" if "f \<le> 1"
  proof -
    have "of_int w \<le> of_int w / f" using that f w by (simp add: le_divide_eq)
    then have g: "round64 (of_int w / f) = PosInf \<or>
        (\<exists>r. round64 (of_int w / f) = Finite r \<and> of_int w \<le> r)"
      by (rule round64_ge_int [OF w])
    have "0 \<le> w" using w by simp
    from f64_to_int_ge [OF g y this] show ?thesis .
  qed
  have "h \<le> y" if "f \<le> 1" using contain [OF that] True by simp
  then show ?thesis using True y by (simp add: c' fw d del: f64_to_int.simps f64_div.simps)
next
  case False
  have fh: "f64_of_int h = Finite (of_int h)" using h by (simp add: f64_of_int_exact)
  have d: "f64_mul (Finite (of_int h)) (Finite f) = round64 (of_int h * f)" using f h by simp
  have "(case f64_to_int (round64 (of_int h * f)) of
       Inl e \<Rightarrow> Inl e | Inr x1 \<Rightarrow> Inr (Rect 0 0 x1 h)) = Inr c"
    using aspect_portrait [of w h f] w h False c by simp
  then obtain x where x: "f64_to_int (round64 (of_int h * f)) = Inr x" and cc: "c = Rect 0 0 x h"
    by (cases "f64_to_int (round64 (of_int h * f))") auto
  have "0 \<le> of_int h * f" using h f by simp
  then have x0: "0 \<le> x" using x by (rule f64_to_int_nonneg)
  have c': "c = \<lparr>MinP = \<lparr>X = 0, Y = 0\<rparr>, MaxP = \<lparr>X = x, Y = h\<rparr>\<rparr>"
    using h x0 by (simp add: cc Rect_origin)
  have contain: "h \<le> x" if "1 \<le> f"
  proof -
    have "of_int h \<le> of_int h * f" using that f h by simp
    then have g: "round64 (of_int h * f) = PosInf \<or>
        (\<exists>r. round64 (of_int h * f) = Finite r \<and> of_int h \<le> r)"
      by (rule round64_ge_int [OF h])
    have "0 \<le> h" using h by simp
    from f64_to_int_ge [OF g x this] show ?thesis .
  qed
  have "w \<le> x" if "1 \<le> f" using contain [OF that] False by simp
  then show ?thesis using False x by (simp add: c' fh d del: f64_to_int.simps f64_mul.simps)
qed

text \<open>
  Both branches at work: a source of 500 by 1000 with the factor 2 keeps its height and
  gets the width 2000; a source of 1000 by 500 with the factor 1/2 keeps its width and
  gets the height 2000.
\<close>

theorem aspect_keeps_larger_axis_witness:
  "(0::int) < 500 \<and> (500::int) \<le> 2 ^ 53 \<and> (0::int) < 1000 \<and> (1000::int) \<le> 2 ^ 53 \<and>
   (0::rat) < 2 \<and> (0::rat) < 1 / 2 \<and>
   aspect (Rect 0 0 500 1000) (Finite 2) =
     Inr \<lparr>MinP = \<lparr>X = 0, Y = 0\<rparr>, MaxP = \<lparr>X = 2000, Y = 1000\<rparr>\<rparr> \<and>
   f64_to_int (f64_mul (f64_of_int 1000) (Finite 2)) = Inr 2000 \<and>
   aspect (Rect 0 0 1000 500) (Finite (1 / 2)) =
     Inr \<lparr>MinP = \<lparr>X = 0, Y = 0\<rparr>, MaxP = \<lparr>X = 1000, Y = 2000\<rparr>\<rparr> \<and>
   f64_to_int (f64_div (f64_of_int 1000) (Finite (1 / 2))) = Inr 2000"
proof -
  have a: "aspect (Rect 0 0 500 1000) (Finite 2) =
     Inr \<lparr>MinP = \<lparr>X = 0, Y = 0\<rparr>, MaxP = \<lparr>X = 2000, Y = 1000\<rparr>\<rparr>"
    using round64_int [of 2000]
    by (simp add: aspect_def Rect_origin f64_of_int_exact trunc_def)
  have b: "aspect (Rect 0 0 1000 500) (Finite (1 / 2)) =
     Inr \<lparr>MinP = \<lparr>X = 0, Y = 0\<rparr>, MaxP = \<lparr>X = 1000, Y = 2000\<rparr>\<rparr>"
    using round64_int [of 2000]
    by (simp add: aspect_def Rect_origin f64_of_int_exact trunc_def)
  have "f64_to_int (f64_mul (f64_of_int 1000) (Finite 2)) = Inr 2000"
    using aspect_keeps_larger_axis [of 500 1000 2, OF _ _ _ _ _ a] by simp
  moreover have "f64_to_int (f64_div (f64_of_int 1000) (Finite (1 / 2))) = Inr 2000"
    using aspect_keeps_larger_axis [of 1000 500 "1 / 2", OF _ _ _ _ _ b] by simp
  ultimately show ?thesis using a b by simp
qed

text \<open>
  The aspect ratio of a processor built without \<open>WithAspect\<close>.
\<close>

lemma aspect_free_keeps:
  assumes "aspect_free opt"
  shows "\<exists>v'. opt v = Inr (v', None) \<and> p_aspect v' = p_aspect v \<and> p_dir v' = p_dir v"
  using assms
  by (auto simp: aspect_free_def WithWhiteBackground_def WithForce_def WithPadding_def
      WithQuality_def WithConcurrency_def)

lemma apply_options_aspect_free:
  "list_all aspect_free options \<Longrightarrow>
   \<exists>p. apply_options options v = Inr (Inr p) \<and> p_aspect p = p_aspect v \<and> p_dir p = p_dir v"
proof (induction options arbitrary: v)
  case Nil
  then show ?case by simp
next
  case (Cons opt options)
  from Cons.prems have "aspect_free opt" and rest: "list_all aspect_free options" by simp_all
  then obtain v' where v': "opt v = Inr (v', None)" "p_aspect v' = p_aspect v" "p_dir v' = p_dir v"
    using aspect_free_keeps by blast
  from Cons.IH [OF rest, of v'] v' show ?case by simp
qed

lemma aspect_zero:
  assumes "0 \<le> h" "h < w" "w \<le> 2 ^ 53"
  shows "aspect (Rect 0 0 w h) (Finite 0) = Inl Unspecified"
proof -
  have "\<bar>w\<bar> \<le> 2 ^ 53" "\<bar>h\<bar> \<le> 2 ^ 53" using assms by auto
  then have "f64_of_int w = Finite (of_int w)" "f64_of_int h = Finite (of_int h)"
    by (simp_all add: f64_of_int_exact)
  then show ?thesis using assms by (simp add: aspect_def Rect_origin trunc_of_int)
qed

text \<open>
  C10. When no option given to \<open>New\<close> is \<open>WithAspect\<close>, \<open>New\<close> returns a processor whose
  field \<open>aspect\<close> is 0. For a source whose width \<open>w\<close> exceeds its height, \<open>aspect\<close>
  divides \<open>w\<close> by that 0: the quotient is an infinity and its conversion to int is
  unspecified. Nothing on the way guards the division: \<open>process\<close> reaches it for every
  item that is not skipped and decodes to such a source.
\<close>

theorem New_without_WithAspect_divides_by_zero:
  assumes "list_all aspect_free options" "0 \<le> h" "h < w" "w \<le> 2 ^ 53"
  shows "\<exists>p. New dir options = Inr (Inr p) \<and> p_aspect p = Finite 0 \<and>
     f64_div (f64_of_int w) (p_aspect p) = PosInf \<and>
     aspect (Rect 0 0 w h) (p_aspect p) = Inl Unspecified \<and>
     (\<forall>world path.
        unmodified (Stat world) path (Join world (p_dir p) path) = Inr False \<longrightarrow>
        Source world path = Inr (Rect 0 0 w h) \<longrightarrow>
        process world p path = Inl Unspecified)"
proof -
  let ?v = "zero_Processor\<lparr>p_concurrency := 1, p_quality := 90, p_dir := dir\<rparr>"
  from apply_options_aspect_free [OF assms(1), of ?v]
  obtain p where "apply_options options ?v = Inr (Inr p)" "p_aspect p = p_aspect ?v"
    by blast
  then have p: "New dir options = Inr (Inr p)" "p_aspect p = Finite 0"
    by (simp_all add: New_def zero_Processor_def)
  have "\<bar>w\<bar> \<le> 2 ^ 53" using assms by auto
  then have fw: "f64_of_int w = Finite (of_int w)" by (simp add: f64_of_int_exact)
  have d: "f64_div (f64_of_int w) (Finite 0) = PosInf" using assms by (simp add: fw)
  have a: "aspect (Rect 0 0 w h) (Finite 0) = Inl Unspecified"
    using assms(2-4) by (rule aspect_zero)
  have "process world p path = Inl Unspecified"
    if "unmodified (Stat world) path (Join world (p_dir p) path) = Inr False"
      "Source world path = Inr (Rect 0 0 w h)" for world path
    using that a by (simp add: process_def p(2))
  with p d a show ?thesis by auto
qed

theorem New_without_WithAspect_divides_by_zero_witness:
  "list_all aspect_free [WithWhiteBackground True, WithConcurrency 8, WithQuality 90,
       WithForce False, WithPadding 0] \<and>
   (0::int) \<le> 500 \<and> (500::int) < 1000 \<and> (1000::int) \<le> 2 ^ 53 \<and>
   (\<exists>p. New ''processed'' [WithWhiteBackground True, WithConcurrency 8, WithQuality 90,
       WithForce False, WithPadding 0] = Inr (Inr p) \<and>
      p_aspect p = Finite 0 \<and>
      aspect (Rect 0 0 1000 500) (p_aspect p) = Inl Unspecified \<and>
      process \<lparr>Join = (\<lambda>dir path. dir @ ''/'' @ path),
               Stat = (\<lambda>f. if f = ''a.jpg'' then Inr 7 else Inl ENOENT),
               Source = (\<lambda>f. Inr (Rect 0 0 1000 500)),
               Render = (\<lambda>db dr f. Inr None)\<rparr> p ''a.jpg'' = Inl Unspecified)"
proof -
  let ?opts = "[WithWhiteBackground True, WithConcurrency 8, WithQuality 90,
       WithForce False, WithPadding 0]"
  let ?world = "\<lparr>Join = (\<lambda>dir path. dir @ ''/'' @ path),
               Stat = (\<lambda>f. if f = ''a.jpg'' then Inr 7 else Inl ENOENT),
               Source = (\<lambda>f. Inr (Rect 0 0 1000 500)),
               Render = (\<lambda>db dr f. Inr None)\<rparr>"
  have free: "list_all aspect_free ?opts" by (simp add: aspect_free_def)
  from New_without_WithAspect_divides_by_zero [OF free, of 500 1000 "''processed''"]
  obtain p where p: "New ''processed'' ?opts = Inr (Inr p)" "p_aspect p = Finite 0"
    "aspect (Rect 0 0 1000 500) (p_aspect p) = Inl Unspecified"
    and run: "\<And>world path.
        unmodified (Stat world) path (Join world (p_dir p) path) = Inr False \<Longrightarrow>
        Source world path = Inr (Rect 0 0 1000 500) \<Longrightarrow>
        process world p path = Inl Unspecified"
    by auto
  have "unmodified (Stat ?world) ''a.jpg'' (Join ?world (p_dir p) ''a.jpg'') = Inr False"
    by (simp add: unmodified_cases)
  then have "process ?world p ''a.jpg'' = Inl Unspecified" by (rule run) simp
  with free p show ?thesis by auto
qed

section \<open>The placement rectangle\<close>

lemma half_nonneg: "0 \<le> a \<Longrightarrow> half a = a div 2"
  by (cases "a = 0") (simp_all add: half_def signed_divide_int_def)

lemma int64_id: "- (2 ^ 63) \<le> k \<Longrightarrow> k < 2 ^ 63 \<Longrightarrow> int64 k = k"
  unfolding int64_def by (rule signed_take_bit_int_eq_self)

text \<open>
  The two corners \<open>centered\<close> returns, for sizes that are not negative and stay clear
  of overflow. The first is the corner of the claim; the second is not the first plus
  the size of the source.
\<close>

lemma centered_corners:
  assumes "0 \<le> sw" "sw < 2 ^ 62" "0 \<le> sh" "sh < 2 ^ 62"
    "0 \<le> dw" "dw < 2 ^ 62" "0 \<le> dh" "dh < 2 ^ 62"
  shows "centered (Rect 0 0 sw sh) (Rect 0 0 dw dh) =
    \<lparr>MinP = \<lparr>X = dw div 2 - sw div 2, Y = dh div 2 - sh div 2\<rparr>,
     MaxP = \<lparr>X = dw div 2 + dw, Y = dh div 2 + sh\<rparr>\<rparr>"
proof -
  have b: "sw < 4611686018427387904" "sh < 4611686018427387904"
    "dw < 4611686018427387904" "dh < 4611686018427387904"
    using assms by simp_all
  have id: "int64 k = k" if "- 4611686018427387904 < k" "k < 9223372036854775808" for k
    using that by (intro int64_id) simp_all
  have x0: "sub64 (half dw) (half sw) = dw div 2 - sw div 2"
    using assms(1,5) b unfolding sub64_def by (simp add: half_nonneg) (intro id; linarith)
  have y0: "sub64 (half dh) (half sh) = dh div 2 - sh div 2"
    using assms(3,7) b unfolding sub64_def by (simp add: half_nonneg) (intro id; linarith)
  have x1: "add64 (half dw) dw = dw div 2 + dw"
    using assms(5) b unfolding add64_def by (simp add: half_nonneg) (intro id; linarith)
  have y1: "add64 (half dh) sh = dh div 2 + sh"
    using assms(3,7) b unfolding add64_def by (simp add: half_nonneg) (intro id; linarith)
  have ox: "\<not> dw div 2 + dw < dw div 2 - sw div 2" using assms(1,5) by linarith
  have oy: "\<not> dh div 2 + sh < dh div 2 - sh div 2" using assms(3,7) by linarith
  have m: "MaxP (Rect 0 0 sw sh) = \<lparr>X = sw, Y = sh\<rparr>" "MaxP (Rect 0 0 dw dh) = \<lparr>X = dw, Y = dh\<rparr>"
    using assms(1,3,5,7) by (simp_all add: Rect_origin)
  show ?thesis
    unfolding centered_def Let_def m Point.simps x0 y0 x1 y1
    using ox oy by (simp add: Rect_def)
qed

text \<open>
  C4, at an input where the code fails: a source of 4 by 2 on a canvas of 4 by 4, the
  canvas of that source for the ratio \<open>1:1\<close>. The rectangle starts at (0, 1), as the claim
  says, but it ends at (6, 4): it is 6 wide and 3 high, not 4 wide and 2 high.
\<close>

theorem centered_4x2_in_4x4:
  "centered (Rect 0 0 4 2) (Rect 0 0 4 4) =
     \<lparr>MinP = \<lparr>X = 0, Y = 1\<rparr>, MaxP = \<lparr>X = 6, Y = 4\<rparr>\<rparr> \<and>
   Dx (centered (Rect 0 0 4 2) (Rect 0 0 4 4)) = 6 \<and>
   Dy (centered (Rect 0 0 4 2) (Rect 0 0 4 4)) = 3"
proof -
  have c: "centered (Rect 0 0 4 2) (Rect 0 0 4 4) =
     \<lparr>MinP = \<lparr>X = 0, Y = 1\<rparr>, MaxP = \<lparr>X = 6, Y = 4\<rparr>\<rparr>"
    using centered_corners [of 4 2 4 4] by simp
  have "int64 6 = 6" "int64 3 = 3" by (simp_all add: int64_id)
  then show ?thesis by (simp add: c Dx_def Dy_def sub64_def)
qed

section \<open>The batch: the semaphore bounds the transforms in flight\<close>

text \<open>
  The invariant of every run: the counter of the semaphore is the number of units held,
  and it is at most the size.
\<close>

lemma count_update:
  "i < length xs \<Longrightarrow>
   length (filter P (xs[i := y])) + (if P (xs ! i) then 1 else 0) =
     length (filter P xs) + (if P y then 1 else 0)"
proof (induction xs arbitrary: i)
  case Nil
  then show ?case by simp
next
  case (Cons x xs)
  show ?case
  proof (cases i)
    case 0
    then show ?thesis by simp
  next
    case (Suc j)
    with Cons.prems have "j < length xs" by simp
    from Cons.IH [OF this] Suc show ?thesis by simp
  qed
qed

lemma held_set_phase:
  assumes "phase_of s i = Some ph"
  shows "held (set_phase i ph' s) =
    held s - (if holds_unit ph then 1 else 0) + (if holds_unit ph' then 1 else 0)"
proof -
  from assms have i: "i < length (gos s)" and ph: "snd (gos s ! i) = ph"
    by (auto simp: phase_of_def split: if_splits)
  have "length (filter (\<lambda>g. holds_unit (snd g)) ((gos s)[i := (fst (gos s ! i), ph')]))
          + (if holds_unit ph then 1 else 0)
        = length (filter (\<lambda>g. holds_unit (snd g)) (gos s)) + (if holds_unit ph' then 1 else 0)"
    using count_update [OF i, of "\<lambda>g. holds_unit (snd g)" "(fst (gos s ! i), ph')"] ph
    by simp
  then show ?thesis
    by (simp add: held_def set_phase_def split: if_splits)
qed

lemma held_cur_update [simp]: "held (s\<lparr>cur := c\<rparr>) = held s"
  by (simp add: held_def)

lemma held_err_update [simp]: "held (s\<lparr>errg_err := e\<rparr>) = held s"
  by (simp add: held_def)

lemma cur_set_phase [simp]: "cur (set_phase i ph s) = cur s"
  by (simp add: set_phase_def)

lemma phase_of_cur_update [simp]: "phase_of (s\<lparr>cur := c\<rparr>) i = phase_of s i"
  by (simp add: phase_of_def)

lemma phase_of_err_update [simp]: "phase_of (s\<lparr>errg_err := c\<rparr>) i = phase_of s i"
  by (simp add: phase_of_def)

lemma loop_not_Spawning [simp]: "loop images \<noteq> Spawning path images'"
  by (cases images) simp_all

lemma held_loop: "(case loop images of Spawning path images' \<Rightarrow> (1::int) | _ \<Rightarrow> 0) = 0"
  by (cases images) simp_all

lemma enabled_sem_inv:
  assumes "sem_inv n s" "enabled n e s = Some s'"
  shows "sem_inv n s'"
proof (cases e)
  case Cancel
  with assms show ?thesis by (auto simp: sem_inv_def held_def)
next
  case Acquire
  with assms show ?thesis
    by (auto simp: sem_inv_def held_def split: pc.splits if_splits)
next
  case AcquireErr
  with assms show ?thesis
    by (auto simp: sem_inv_def held_def split: pc.splits if_splits)
next
  case Go
  with assms show ?thesis
    by (auto simp: sem_inv_def held_def held_loop split: pc.splits if_splits)
next
  case (Begin i)
  with assms obtain ph where ph: "phase_of s i = Some ph" "ph = Spawned" "s' = set_phase i Running s"
    by (auto split: option.splits phase.splits)
  with assms(1) show ?thesis by (simp add: sem_inv_def held_set_phase [OF ph(1)])
next
  case (End i r)
  with assms obtain ph where ph: "phase_of s i = Some ph" "ph = Running" "s' = set_phase i (Returned r) s"
    by (auto split: option.splits phase.splits)
  with assms(1) show ?thesis by (simp add: sem_inv_def held_set_phase [OF ph(1)])
next
  case (Panic i)
  with assms show ?thesis
    by (auto simp: sem_inv_def held_def split: option.splits phase.splits)
next
  case (Release i)
  with assms obtain r where ph: "phase_of s i = Some (Returned r)"
      "s' = set_phase i (Released r) (s\<lparr>cur := cur s - 1\<rparr>)"
    by (auto split: option.splits phase.splits)
  from ph(1) have "phase_of (s\<lparr>cur := cur s - 1\<rparr>) i = Some (Returned r)" by simp
  from held_set_phase [OF this, of "Released r"] assms(1) ph(2)
  show ?thesis by (simp add: sem_inv_def)
next
  case (Record i)
  with assms obtain r e' where ph: "phase_of s i = Some (Released r)"
      "s' = set_phase i Finished (s\<lparr>errg_err := e'\<rparr>)"
    by (auto split: option.splits phase.splits)
  from ph(1) have "phase_of (s\<lparr>errg_err := e'\<rparr>) i = Some (Released r)" by simp
  from held_set_phase [OF this, of Finished] assms(1) ph(2)
  show ?thesis by (simp add: sem_inv_def)
next
  case Wait
  with assms show ?thesis
    by (auto simp: sem_inv_def held_def split: pc.splits if_splits)
qed

lemma run_sem_inv:
  "sem_inv n s \<Longrightarrow> run n es s = Some s' \<Longrightarrow> sem_inv n s'"
proof (induction es arbitrary: s)
  case Nil
  then show ?case by simp
next
  case (Cons e es)
  from Cons.prems(2) obtain t where t: "step n e s = Some t" "run n es t = Some s'"
    by (auto split: option.splits)
  from t(1) have "enabled n e s = Some t" by (simp add: step_def split: if_splits)
  with Cons.prems(1) have "sem_inv n t" by (rule enabled_sem_inv)
  then show ?case using t(2) by (rule Cons.IH)
qed

lemma sem_inv_init: "0 \<le> n \<Longrightarrow> sem_inv n (init images)"
  by (simp add: sem_inv_def init_def held_def held_loop)

lemma executing_le_held: "executing s \<le> held s"
proof -
  have "length (filter (\<lambda>g. snd g = Running) xs) \<le> length (filter (\<lambda>g. holds_unit (snd g)) xs)" for xs :: "(string \<times> phase) list"
    by (induction xs) auto
  then have "executing s \<le> int (length (filter (\<lambda>g. holds_unit (snd g)) (gos s)))"
    unfolding executing_def by (simp only: of_nat_le_iff)
  moreover have "(0::int) \<le> (case main s of Spawning path images \<Rightarrow> 1 | _ \<Rightarrow> 0)"
    by (simp split: pc.splits)
  ultimately show ?thesis unfolding held_def by linarith
qed

text \<open>
  C1. For a processor whose concurrency is at least 1 and every list of items, in every
  state that a run of \<open>Process\<close> reaches, the number of goroutines inside \<open>p.process\<close> is
  at most the concurrency. Each of them is one of the goroutines that hold a unit of the
  semaphore, from \<open>sem.Acquire\<close> in the main loop to its own deferred \<open>sem.Release\<close>;
  the units held are exactly the semaphore's counter, which never exceeds its size.
\<close>

theorem Process_bounded:
  assumes "1 \<le> p_concurrency p" "Process p images es = Some s"
  shows "executing s \<le> p_concurrency p \<and> executing s \<le> held s \<and> held s = cur s \<and> cur s \<le> p_concurrency p"
proof -
  have "sem_inv (p_concurrency p) (init images)" using assms(1) by (intro sem_inv_init) simp
  then have "sem_inv (p_concurrency p) s" using assms(2) unfolding Process_def by (rule run_sem_inv)
  then show ?thesis using executing_le_held [of s] by (simp add: sem_inv_def)
qed

text \<open>
  With concurrency 2 and three items, the first two are admitted and run side by side;
  the bound is reached and the third cannot be admitted before a release.
\<close>

theorem Process_bounded_witness:
  "1 \<le> p_concurrency (zero_Processor\<lparr>p_concurrency := 2\<rparr>) \<and>
   Process (zero_Processor\<lparr>p_concurrency := 2\<rparr>) [''a.jpg'', ''b.jpg'', ''c.jpg'']
     [Acquire, Go, Acquire, Go, Begin 0, Begin 1] =
    Some \<lparr>main = Acquiring ''c.jpg'' [], cur = 2, ctx_done = False,
          gos = [(''a.jpg'', Running), (''b.jpg'', Running)], errg_err = None,
          panicked = False\<rparr> \<and>
   executing \<lparr>main = Acquiring ''c.jpg'' [], cur = 2, ctx_done = False,
          gos = [(''a.jpg'', Running), (''b.jpg'', Running)], errg_err = None,
          panicked = False\<rparr> = 2 \<and>
   step 2 Acquire \<lparr>main = Acquiring ''c.jpg'' [], cur = 2, ctx_done = False,
          gos = [(''a.jpg'', Running), (''b.jpg'', Running)], errg_err = None,
          panicked = False\<rparr> = None"
proof -
  let ?p = "zero_Processor\<lparr>p_concurrency := 2\<rparr>"
  let ?s = "\<lparr>main = Acquiring ''c.jpg'' [], cur = 2, ctx_done = False,
          gos = [(''a.jpg'', Running), (''b.jpg'', Running)], errg_err = None,
          panicked = False\<rparr>"
  have c: "1 \<le> p_concurrency ?p" by simp
  have r: "Process ?p [''a.jpg'', ''b.jpg'', ''c.jpg''] [Acquire, Go, Acquire, Go, Begin 0, Begin 1] = Some ?s"
    by (simp add: Process_def step_def init_def phase_of_def set_phase_def)
  from Process_bounded [OF c r] have "executing ?s \<le> 2" by simp
  moreover have "executing ?s = 2" by (simp add: executing_def)
  moreover have "step 2 Acquire ?s = None" by (simp add: step_def)
  ultimately show ?thesis using c r by simp
qed

section \<open>The batch: a recorded failure does not stop admission\<close>









end
